theory Spec2Isabelle
  imports Complex_Main
begin

section \<open>Text helpers\<close>

text \<open>
  The Python program works on \<open>str\<close> values. A character of a \<open>str\<close> is modelled by
  the \<open>char\<close> that holds its code point, so the model covers text whose code points lie
  below 256; text with higher code points is outside it. In that range
  \<^item> the regular expression class \<open>\d\<close> and \<open>int\<close> accept exactly the ten characters
    \<open>0\<close> to \<open>9\<close> (\<open>decimal_char\<close>);
  \<^item> \<open>str.isdigit\<close> accepts these and the superscripts U+00B2, U+00B3 and U+00B9
    (\<open>digit_char\<close>);
  \<^item> \<open>str.strip\<close> removes the characters U+0009 to U+000D, U+001C to U+0020,
    U+0085 and U+00A0 (\<open>isspace_char\<close>).
  \<open>lower\<close> is used for the \<open>.iso\<close> test only; it lower-cases the letters \<open>A\<close> to
  \<open>Z\<close>, which decides that test as \<open>str.lower\<close> does, since no other character
  lower-cases to \<open>i\<close>, \<open>s\<close> or \<open>o\<close>.
\<close>

definition decimal_char :: "char \<Rightarrow> bool" where
  "decimal_char c = (c \<in> set ''0123456789'')"

definition digit_char :: "char \<Rightarrow> bool" where
  "digit_char c = (decimal_char c \<or> c \<in> set [CHR 0xB2, CHR 0xB3, CHR 0xB9])"

text \<open>\<open>str.isdigit\<close>.\<close>

definition isdigit :: "string \<Rightarrow> bool" where
  "isdigit s = (s \<noteq> [] \<and> list_all digit_char s)"

text \<open>A match of \<open>\d+\<close>: a non-empty run of decimal digits, the text \<open>int\<close> is applied to.\<close>

definition decimal_run :: "string \<Rightarrow> bool" where
  "decimal_run s = (s \<noteq> [] \<and> list_all decimal_char s)"

definition digit_value :: "char \<Rightarrow> nat" where
  "digit_value c = of_char c - 48"

definition py_int :: "string \<Rightarrow> nat" where
  "py_int s = foldl (\<lambda>n c. 10 * n + digit_value c) 0 s"

definition lower_char :: "char \<Rightarrow> char" where
  "lower_char c =
     (case map_of (zip ''ABCDEFGHIJKLMNOPQRSTUVWXYZ'' ''abcdefghijklmnopqrstuvwxyz'') c of
        Some l \<Rightarrow> l
      | None \<Rightarrow> c)"

definition lower :: "string \<Rightarrow> string" where
  "lower s = map lower_char s"

definition endswith :: "string \<Rightarrow> string \<Rightarrow> bool" where
  "endswith s suf = (length suf \<le> length s \<and> drop (length s - length suf) s = suf)"

definition startswith :: "string \<Rightarrow> string \<Rightarrow> bool" where
  "startswith s pre = (take (length pre) s = pre)"

fun contains :: "string \<Rightarrow> string \<Rightarrow> bool" where
  "contains sub [] = (sub = [])"
| "contains sub (c # cs) = (startswith (c # cs) sub \<or> contains sub cs)"

definition isspace_char :: "char \<Rightarrow> bool" where
  "isspace_char c =
     (c \<in> set [CHR 0x09, CHR 0x0A, CHR 0x0B, CHR 0x0C, CHR 0x0D,
               CHR 0x1C, CHR 0x1D, CHR 0x1E, CHR 0x1F, CHR 0x20, CHR 0x85, CHR 0xA0])"

definition strip :: "string \<Rightarrow> string" where
  "strip s = rev (dropWhile isspace_char (rev (dropWhile isspace_char s)))"


section \<open>Compatibility shim: \<open>is_legacy_version\<close> and the argument list\<close>

text \<open>
  \<open>is_legacy_version\<close> (gui.py, lines 628-636) searches the binary's name with the
  regular expression \<open>-(\d+\.\d+\.\d+)\<close>. \<open>match_version_at\<close> is that expression
  anchored at the head of its argument: a dash, then three runs of digits separated by
  dots. Each \<open>\d+\<close> is greedy, and the character after a longest run of digits is no
  digit, so giving digits back can never let the following literal match: the
  backtracking matcher succeeds exactly where the longest runs do.
  \<open>re_search_version\<close> is \<open>re.search\<close>: the leftmost position where the anchored
  match succeeds.
\<close>

definition expect_char :: "char \<Rightarrow> string \<Rightarrow> string option" where
  "expect_char c s = (case s of [] \<Rightarrow> None | x # r \<Rightarrow> if x = c then Some r else None)"

definition digits1 :: "string \<Rightarrow> (string \<times> string) option" where
  "digits1 s =
     (if takeWhile decimal_char s = [] then None
      else Some (takeWhile decimal_char s, dropWhile decimal_char s))"

definition match_version_at :: "string \<Rightarrow> (string \<times> string \<times> string) option" where
  "match_version_at s =
     Option.bind (expect_char CHR ''-'' s) (\<lambda>r0.
     Option.bind (digits1 r0) (\<lambda>(major, r1).
     Option.bind (expect_char CHR ''.'' r1) (\<lambda>r2.
     Option.bind (digits1 r2) (\<lambda>(minor, r3).
     Option.bind (expect_char CHR ''.'' r3) (\<lambda>r4.
     Option.bind (digits1 r4) (\<lambda>(patch, r5).
       Some (major, minor, patch)))))))"

fun re_search_version :: "string \<Rightarrow> (string \<times> string \<times> string) option" where
  "re_search_version [] = None"
| "re_search_version (c # cs) =
     (case match_version_at (c # cs) of
        Some v \<Rightarrow> Some v
      | None \<Rightarrow> re_search_version cs)"

text \<open>Python compares tuples lexicographically.\<close>

definition tuple_le :: "nat \<times> nat \<times> nat \<Rightarrow> nat \<times> nat \<times> nat \<Rightarrow> bool" where
  "tuple_le x y =
     (case x of (a, b, c) \<Rightarrow> case y of (a', b', c') \<Rightarrow>
        a < a' \<or> (a = a' \<and> (b < b' \<or> (b = b' \<and> c \<le> c'))))"

definition is_legacy_version :: "string \<Rightarrow> bool" where
  "is_legacy_version binary_name =
     (case re_search_version binary_name of
        Some (major, minor, patch) \<Rightarrow>
          tuple_le (py_int major, py_int minor, py_int patch) (1, 6, 0)
      | None \<Rightarrow> False)"

text \<open>
  Lines 669-677 of \<open>process_iso\<close>: the command line of one attempt.
  \<open>thread_count\<close> is the text of the Threads entry.
\<close>

definition add_j :: "string \<Rightarrow> bool \<Rightarrow> bool" where
  "add_j thread_count legacy_mode = (isdigit thread_count \<and> \<not> legacy_mode)"

definition build_cmd :: "string \<Rightarrow> string \<Rightarrow> string \<Rightarrow> bool \<Rightarrow> string \<Rightarrow> bool \<Rightarrow> string list" where
  "build_cmd iso2god_path iso_path output_path trim thread_count legacy_mode =
     [iso2god_path, iso_path, output_path]
     @ (if trim then [''--trim''] else [])
     @ (if add_j thread_count legacy_mode then [''-j'', thread_count] else [])"

text \<open>
  The specification's reading of the Threads entry: a positive integer, written in
  decimal digits.
\<close>

definition positive_integer :: "string \<Rightarrow> bool" where
  "positive_integer s = (decimal_run s \<and> 0 < py_int s)"


section \<open>Debounced watcher and admission queue\<close>

text \<open>
  \<open>IsoHandler\<close> (lines 69-98). The queue object is shared with the consumer, so
  \<open>on_created\<close> takes the handler and the queue and returns both. Times are the
  readings of \<open>time.time()\<close>, taken as real numbers.
\<close>

record iso_handler =
  extensions :: "string list"
  processing :: "string set"
  last_event_time :: "string \<rightharpoonup> real"
  scan_delay :: real

definition new_handler :: iso_handler where
  "new_handler =
     \<lparr>extensions = [''.iso''], processing = {}, last_event_time = Map.empty, scan_delay = 2\<rparr>"

definition set_scan_delay :: "iso_handler \<Rightarrow> real \<Rightarrow> iso_handler" where
  "set_scan_delay h delay = h\<lparr>scan_delay := delay\<rparr>"

record created_event =
  src_path :: string
  is_directory :: bool

definition debounced :: "iso_handler \<Rightarrow> string \<Rightarrow> real \<Rightarrow> bool" where
  "debounced h p current_time =
     (case last_event_time h p of
        Some t \<Rightarrow> current_time - t < scan_delay h
      | None \<Rightarrow> False)"

definition on_created ::
  "iso_handler \<Rightarrow> string list \<Rightarrow> created_event \<Rightarrow> real \<Rightarrow> iso_handler \<times> string list" where
  "on_created h q event current_time =
     (if \<not> is_directory event \<and> list_ex (endswith (lower (src_path event))) (extensions h) then
        if debounced h (src_path event) current_time then (h, q)
        else
          let h1 = h\<lparr>last_event_time := (last_event_time h)(src_path event \<mapsto> current_time)\<rparr>
          in if src_path event \<notin> processing h1
             then (h1\<lparr>processing := insert (src_path event) (processing h1)\<rparr>, q @ [src_path event])
             else (h1, q)
      else (h, q))"

text \<open>
  \<open>DirectoryWatcher.check_directory\<close> (lines 111-133). \<open>fp\<close> stands for
  \<open>os.path.join(self.path, file)\<close>. The listing gives every name \<open>os.listdir\<close>
  returned with two clock readings: the one the loop takes for it (line 120) and the one
  \<open>on_created\<close> takes when it is called for it (line 87). \<open>None\<close> is a listing that
  raised, which the \<open>except\<close> clause absorbs before anything was changed.
\<close>

type_synonym listing = "(string \<times> real \<times> real) list option"

fun scan_entries ::
  "(string \<Rightarrow> string) \<Rightarrow> (string \<times> real \<times> real) list \<Rightarrow>
   string set \<times> (string \<rightharpoonup> real) \<times> iso_handler \<times> string list \<Rightarrow>
   string set \<times> (string \<rightharpoonup> real) \<times> iso_handler \<times> string list" where
  "scan_entries fp [] st = st"
| "scan_entries fp ((file, current_time, event_time) # rest) (current_files, last_check, h, q) =
     (if endswith (lower file) ''.iso'' then
        let filepath = fp file;
            current_files' = insert filepath current_files
        in if last_check filepath = None then
             let (h', q') = on_created h q \<lparr>src_path = filepath, is_directory = False\<rparr> event_time
             in scan_entries fp rest (current_files', last_check(filepath \<mapsto> current_time), h', q')
           else scan_entries fp rest (current_files', last_check, h, q)
      else scan_entries fp rest (current_files, last_check, h, q))"

definition check_directory ::
  "(string \<Rightarrow> string) \<Rightarrow> listing \<Rightarrow>
   (string \<rightharpoonup> real) \<times> iso_handler \<times> string list \<Rightarrow>
   (string \<rightharpoonup> real) \<times> iso_handler \<times> string list" where
  "check_directory fp listing st =
     (case listing of
        None \<Rightarrow> st
      | Some entries \<Rightarrow>
          (case st of (last_check, h, q) \<Rightarrow>
           case scan_entries fp entries ({}, last_check, h, q) of
             (current_files, last_check', h', q') \<Rightarrow> (last_check' |` current_files, h', q')))"

text \<open>
  The application state the watcher thread, the consumer thread and the buttons share
  (\<open>Iso2GodGUI\<close>): the queue, the processing flag, the watcher (its \<open>_last_check\<close>
  table, \<open>None\<close> while not watching), the handler, and the path the consumer is
  working on. \<open>self.handler\<close> is \<open>None\<close> until the first start; nothing reads it
  before, since the consumer only works while \<open>is_processing\<close> is set.
\<close>

record app =
  iso_queue :: "string list"
  is_processing :: bool
  watcher :: "(string \<rightharpoonup> real) option"
  handler :: iso_handler
  current_job :: "string option"

definition initial_app :: app where
  "initial_app =
     \<lparr>iso_queue = [], is_processing = False, watcher = None, handler = new_handler,
      current_job = None\<rparr>"

text \<open>
  \<open>toggle_watching\<close> and \<open>stop_watching\<close> (lines 536-594). \<open>dirs_ok\<close>: both
  directories are given and exist. \<open>delay\<close>: \<open>float(self.scan_delay.get())\<close>,
  \<open>None\<close> when it raises \<open>ValueError\<close>.
\<close>

definition toggle_watching :: "app \<Rightarrow> bool \<Rightarrow> real option \<Rightarrow> app" where
  "toggle_watching a dirs_ok delay =
     (case watcher a of
        None \<Rightarrow>
          if \<not> dirs_ok then a
          else a\<lparr>handler := set_scan_delay new_handler (case delay of Some d \<Rightarrow> d | None \<Rightarrow> 2),
                 watcher := Some Map.empty,
                 is_processing := True\<rparr>
      | Some w \<Rightarrow> a\<lparr>watcher := None, is_processing := False\<rparr>)"

definition clear_queue :: "app \<Rightarrow> app" where
  "clear_queue a = a\<lparr>iso_queue := []\<rparr>"

text \<open>One poll of the running watcher thread.\<close>

definition poll :: "(string \<Rightarrow> string) \<Rightarrow> listing \<Rightarrow> app \<Rightarrow> app" where
  "poll fp listing a =
     (case watcher a of
        None \<Rightarrow> a
      | Some last_check \<Rightarrow>
          (case check_directory fp listing (last_check, handler a, iso_queue a) of
             (last_check', h', q') \<Rightarrow>
               a\<lparr>watcher := Some last_check', handler := h', iso_queue := q'\<rparr>))"

text \<open>
  The consumer (\<open>process_queue\<close>, lines 604-619) takes the head of the queue when
  processing is on and it holds no job.
\<close>

definition dequeue :: "app \<Rightarrow> app" where
  "dequeue a =
     (if is_processing a \<and> current_job a = None then
        (case iso_queue a of
           [] \<Rightarrow> a
         | iso_path # rest \<Rightarrow> a\<lparr>iso_queue := rest, current_job := Some iso_path\<rparr>)
      else a)"

text \<open>The in-flight part of the \<open>finally\<close> block of \<open>process_iso\<close> (lines 807-808).\<close>

definition discard_inflight :: "string \<Rightarrow> iso_handler \<Rightarrow> iso_handler" where
  "discard_inflight iso_path h =
     (if iso_path \<in> processing h then h\<lparr>processing := processing h - {iso_path}\<rparr> else h)"

definition finish :: "app \<Rightarrow> app" where
  "finish a =
     (case current_job a of
        None \<Rightarrow> a
      | Some iso_path \<Rightarrow> a\<lparr>handler := discard_inflight iso_path (handler a), current_job := None\<rparr>)"

datatype action =
    Toggle bool "real option"
  | Poll listing
  | ClearQueue
  | Dequeue
  | Finish

fun step :: "(string \<Rightarrow> string) \<Rightarrow> app \<Rightarrow> action \<Rightarrow> app" where
  "step fp a (Toggle dirs_ok delay) = toggle_watching a dirs_ok delay"
| "step fp a (Poll listing) = poll fp listing a"
| "step fp a ClearQueue = clear_queue a"
| "step fp a Dequeue = dequeue a"
| "step fp a Finish = finish a"

definition run :: "(string \<Rightarrow> string) \<Rightarrow> app \<Rightarrow> action list \<Rightarrow> app" where
  "run fp a acts = foldl (step fp) a acts"

text \<open>
  Within one watch session (from Start to Stop) the Start button is not pressed, so the
  handler object stays the same.
\<close>

fun session_action :: "action \<Rightarrow> bool" where
  "session_action (Toggle dirs_ok delay) = False"
| "session_action act = True"

definition session_inv :: "app \<Rightarrow> bool" where
  "session_inv a =
     (distinct (iso_queue a)
      \<and> set (iso_queue a) \<subseteq> processing (handler a)
      \<and> (case current_job a of
           None \<Rightarrow> True
         | Some p \<Rightarrow> p \<notin> set (iso_queue a) \<and> p \<in> processing (handler a)))"


section \<open>Upload stage\<close>

text \<open>
  \<open>upload_folder\<close> and \<open>send_over_ftp\<close> (lines 465-488), as the sequence of
  commands sent to the server. The local folder is given by its entries in
  \<open>os.listdir\<close> order, a directory with its own entries. The server is given by the
  requests it answers with an error: such an answer raises in \<open>ftplib\<close> and ends the
  upload, which the second component of the result records (\<open>False\<close>: an exception
  left the function). The answer to \<open>MKD\<close> is not asked for: the bare \<open>except\<close> of
  lines 466-469 discards it.
\<close>

datatype local_entry = LocalFile string | LocalDir string "local_entry list"

datatype ftp_event =
    Connect string int
  | Login string string
  | Mkd string
  | Cwd string
  | Stor string
  | TransferComplete

record ftp_server =
  connect_error :: bool
  login_error :: bool
  cwd_error :: "string \<Rightarrow> bool"
  stor_error :: "string \<Rightarrow> bool"

definition and_then :: "ftp_event list \<times> bool \<Rightarrow> ftp_event list \<times> bool \<Rightarrow> ftp_event list \<times> bool" where
  "and_then r1 r2 = (if snd r1 then (fst r1 @ fst r2, snd r2) else r1)"

fun upload_folder :: "ftp_server \<Rightarrow> local_entry list \<Rightarrow> string \<Rightarrow> ftp_event list \<times> bool"
  and upload_items :: "ftp_server \<Rightarrow> local_entry list \<Rightarrow> ftp_event list \<times> bool" where
  "upload_folder srv items remote_dir =
     and_then ([Mkd remote_dir, Cwd remote_dir], \<not> cwd_error srv remote_dir)
       (and_then (upload_items srv items) ([TransferComplete], True))"
| "upload_items srv [] = ([], True)"
| "upload_items srv (LocalDir item sub # rest) =
     and_then (upload_folder srv sub item)
       (and_then ([Cwd ''..''], \<not> cwd_error srv ''..'') (upload_items srv rest))"
| "upload_items srv (LocalFile item # rest) =
     and_then ([Stor item], \<not> stor_error srv item) (upload_items srv rest)"

text \<open>
  The entries of the FTP frame. \<open>ftp_port_int\<close> is \<open>int(self.ftp_port.get())\<close>,
  \<open>None\<close> when it raises \<open>ValueError\<close>.
\<close>

record ftp_settings =
  ftp_ip :: string
  ftp_port :: string
  ftp_port_int :: "int option"
  ftp_user :: string
  ftp_pass :: string
  drv_field :: string

definition send_over_ftp :: "ftp_settings \<Rightarrow> ftp_server \<Rightarrow> local_entry list \<Rightarrow> ftp_event list \<times> bool" where
  "send_over_ftp cfg srv local_folder =
     (case (if ftp_port cfg = ''Port (default: 21)'' then Some 21 else ftp_port_int cfg) of
        None \<Rightarrow> ([], False)
      | Some port \<Rightarrow>
          and_then ([Connect ''192.168.1.28'' port], \<not> connect_error srv)
         (and_then ([Login (ftp_user cfg) (ftp_pass cfg)], \<not> login_error srv)
           (upload_folder srv local_folder
              ((if drv_field cfg = ''Drive Folder (default: Hdd1)'' then ''Hdd1'' else drv_field cfg)
               @ ''/Content/0000000000000000''))))"


section \<open>Process supervisor\<close>

text \<open>
  \<open>process_iso\<close> (lines 621-820), as the sequence of effects of the consumer thread:
  status lines (by kind), sleeps, the child's start, termination and kill, the removal
  of the source file, the title display, the queue acknowledgement and the upload. Lines
  forwarded by the two reader threads and the periodic progress line are display only
  and left out.
\<close>

datatype message =
    MsgFound
  | MsgNoBinary
  | MsgBinaryNotFound
  | MsgLockedRetry nat
  | MsgLockedSkip
  | MsgInvalidTimeout
  | MsgStarting
  | MsgTimedOut
  | MsgLegacyRetry
  | MsgConverted
  | MsgDeleted
  | MsgDeleteError
  | MsgNotDeleted
  | MsgKept
  | MsgErrorRetry int nat
  | MsgErrorSkip int
  | MsgAccessRetry nat
  | MsgAccessSkip
  | MsgUnexpected
  | MsgFtpYes
  | MsgFtpError
  | MsgFtpNo
  | MsgReady

datatype event =
    SetTitle string
  | Status message
  | Sleep nat
  | Popen "string list"
  | Terminate
  | Kill
  | Remove string
  | TaskDone
  | SendOverFtp "ftp_event list"

text \<open>
  What one pass of the retry loop meets: the entries it reads, what opening the source
  file and starting the child do, the clock at the start and at every pass of the wait
  loop that finds the child alive, whether the child is still alive one second after
  \<open>terminate\<close>, its exit code, the lines of its error stream, and, on success, the
  delete option, the processing flag and whether \<open>os.remove\<close> succeeds.
  \<open>process_timeout\<close> is \<open>float(self.process_timeout.get())\<close>, \<open>None\<close> when it raises
  \<open>ValueError\<close>. The list of wait-loop readings is finite: the child exits or is timed
  out. The error stream is taken as read to its end when the flag is consulted.
\<close>

datatype open_result = Opened | OpenPermissionError | OpenFailed

datatype popen_result = Spawned | PopenPermissionError | PopenFailed

record attempt =
  open_result :: open_result
  trim_var :: bool
  thread_count :: string
  output_path :: string
  process_timeout :: "real option"
  popen_result :: popen_result
  conversion_start_time :: real
  poll_times :: "real list"
  alive_after_terminate :: bool
  return_code :: int
  stderr_lines :: "string list"
  delete_iso_var :: bool
  still_processing :: bool
  remove_ok :: bool

definition max_retries :: nat where
  "max_retries = 3"

definition retry_delay :: nat where
  "retry_delay = 120"

definition timeout_seconds :: "real option \<Rightarrow> real option" where
  "timeout_seconds entry =
     (case entry of
        Some timeout_minutes \<Rightarrow> if timeout_minutes > 0 then Some (timeout_minutes * 60) else None
      | None \<Rightarrow> None)"

text \<open>
  The wait loop (lines 731-752): \<open>True\<close> when a pass finds the child alive after more
  than the timeout, \<open>False\<close> when the child has exited first.
\<close>

fun wait_loop :: "real option \<Rightarrow> real \<Rightarrow> real list \<Rightarrow> bool" where
  "wait_loop ts start [] = False"
| "wait_loop ts start (current_time # rest) =
     (if (case ts of Some s \<Rightarrow> s \<noteq> 0 \<and> current_time - start > s | None \<Rightarrow> False) then True
      else wait_loop ts start rest)"

text \<open>
  The reader of the error stream (\<open>read_output\<close> with \<open>is_error\<close>, lines 698-722):
  the value of \<open>error_detected["unexpected_j"]\<close> when the stream has been read. A line
  with a file-lock text raises in the reader thread, which ends that thread.
\<close>

fun read_stderr :: "bool \<Rightarrow> string list \<Rightarrow> bool" where
  "read_stderr legacy_mode [] = False"
| "read_stderr legacy_mode (raw # rest) =
     (if strip raw = [] then read_stderr legacy_mode rest
      else (legacy_mode \<and> contains ''unexpected argument '-j' found'' (strip raw))
           \<or> (if contains ''process cannot access the file'' (strip raw)
                  \<or> contains ''being used by another process'' (strip raw)
               then False
               else read_stderr legacy_mode rest))"

datatype attempt_result = Return "event list" | Retry "event list"

definition emit :: "event list \<Rightarrow> attempt_result \<Rightarrow> attempt_result" where
  "emit es r = (case r of Return xs \<Rightarrow> Return (es @ xs) | Retry xs \<Rightarrow> Retry (es @ xs))"

text \<open>
  Lines 753-792: the child has exited. \<open>conclude\<close> is the code of these lines over
  the three variables its first test reads (line 759): \<open>legacy_mode\<close>,
  \<open>error_detected["unexpected_j"]\<close> and \<open>add_j\<close>. \<open>after_exit\<close> gives them the
  values they have in \<open>process_iso\<close>: what the reader of the error stream has set, and
  the \<open>add_j\<close> of line 675.
\<close>

definition conclude ::
  "string \<Rightarrow> bool \<Rightarrow> bool \<Rightarrow> bool \<Rightarrow> nat \<Rightarrow> attempt \<Rightarrow> attempt_result" where
  "conclude path legacy_mode unexpected_j sent_j current_try a =
     (if legacy_mode \<and> unexpected_j \<and> sent_j then
        Retry [Status MsgLegacyRetry]
      else if return_code a = 0 then
        Return ([Status MsgConverted]
          @ (if delete_iso_var a \<and> still_processing a then
               [Remove path, Status (if remove_ok a then MsgDeleted else MsgDeleteError)]
             else if delete_iso_var a \<and> \<not> still_processing a then [Status MsgNotDeleted]
             else [Status MsgKept]))
      else if current_try < max_retries - 1 then
        Retry [Status (MsgErrorRetry (return_code a) (current_try + 1)), Sleep retry_delay]
      else Return [Status (MsgErrorSkip (return_code a))])"

definition after_exit :: "string \<Rightarrow> bool \<Rightarrow> nat \<Rightarrow> attempt \<Rightarrow> attempt_result" where
  "after_exit path legacy_mode current_try a =
     conclude path legacy_mode (read_stderr legacy_mode (stderr_lines a))
       (add_j (thread_count a) legacy_mode) current_try a"

text \<open>Lines 793-800: the handler of \<open>PermissionError\<close>.\<close>

definition permission_error :: "nat \<Rightarrow> attempt_result" where
  "permission_error current_try =
     (if current_try < max_retries - 1 then
        Retry [Status (MsgAccessRetry (current_try + 1)), Sleep retry_delay]
      else Return [Status MsgAccessSkip])"

text \<open>Lines 669-692: the command line, the timeout entry, the start of the child.\<close>

definition start_events :: "string \<Rightarrow> string \<Rightarrow> bool \<Rightarrow> attempt \<Rightarrow> event list" where
  "start_events path tool_path legacy_mode a =
     (if process_timeout a = None then [Status MsgInvalidTimeout] else [])
     @ [Status MsgStarting,
        Popen (build_cmd tool_path path (output_path a) (trim_var a) (thread_count a) legacy_mode)]"

text \<open>Lines 669-752: one conversion attempt up to the child's exit or its timeout.\<close>

definition supervise :: "string \<Rightarrow> string \<Rightarrow> bool \<Rightarrow> nat \<Rightarrow> attempt \<Rightarrow> attempt_result" where
  "supervise path tool_path legacy_mode current_try a =
     emit (start_events path tool_path legacy_mode a)
       (case popen_result a of
          PopenPermissionError \<Rightarrow> permission_error current_try
        | PopenFailed \<Rightarrow> Return [Status MsgUnexpected]
        | Spawned \<Rightarrow>
            if wait_loop (timeout_seconds (process_timeout a)) (conversion_start_time a) (poll_times a)
            then Return ([Terminate, Sleep 1] @ (if alive_after_terminate a then [Kill] else [])
                         @ [Status MsgTimedOut])
            else after_exit path legacy_mode current_try a)"

text \<open>Lines 655-668, then the rest of the pass.\<close>

definition run_attempt :: "string \<Rightarrow> string \<Rightarrow> bool \<Rightarrow> nat \<Rightarrow> attempt \<Rightarrow> attempt_result" where
  "run_attempt path tool_path legacy_mode current_try a =
     (case open_result a of
        OpenPermissionError \<Rightarrow>
          if current_try < max_retries - 1 then
            Retry [Status (MsgLockedRetry (current_try + 1)), Sleep retry_delay]
          else Return [Status MsgLockedSkip]
      | OpenFailed \<Rightarrow> Return [Status MsgUnexpected]
      | Opened \<Rightarrow> supervise path tool_path legacy_mode current_try a)"

text \<open>
  The retry loop (line 654). Every pass that does not return goes on with
  \<open>current_try + 1\<close>; \<open>env\<close> gives what the pass numbered \<open>current_try\<close> meets.
\<close>

function retry_loop :: "string \<Rightarrow> string \<Rightarrow> bool \<Rightarrow> (nat \<Rightarrow> attempt) \<Rightarrow> nat \<Rightarrow> event list" where
  "retry_loop path tool_path legacy_mode env current_try =
     (if current_try < max_retries then
        (case run_attempt path tool_path legacy_mode current_try (env current_try) of
           Return es \<Rightarrow> es
         | Retry es \<Rightarrow> es @ retry_loop path tool_path legacy_mode env (current_try + 1))
      else [])"
  by pat_completeness auto
termination
  by (relation "measure (\<lambda>(path, tool_path, legacy_mode, env, current_try). max_retries - current_try)")
    auto

text \<open>
  One job: the path taken from the queue, the title shown for it
  (\<open>os.path.splitext(os.path.basename(iso_path))[0]\<close>), the selected binary, its path
  \<open>os.path.join(ISO2GOD_DIR, iso2god_binary)\<close> and whether that exists, what each pass
  of the retry loop meets, and what the \<open>finally\<close> block reads: the FTP option, the FTP
  entries, the server and the output folder.
\<close>

record job =
  iso_path :: string
  game_title :: string
  iso2god_binary :: string
  iso2god_path :: string
  binary_exists :: bool
  attempts :: "nat \<Rightarrow> attempt"
  use_ftp :: bool
  ftp_cfg :: ftp_settings
  ftp_srv :: ftp_server
  output_folder :: "local_entry list"

text \<open>Lines 639-653 and the retry loop: the \<open>try\<close> block.\<close>

definition try_block :: "job \<Rightarrow> event list" where
  "try_block j =
     [SetTitle (game_title j), Status MsgFound]
     @ (if iso2god_binary j = [] then [Status MsgNoBinary]
        else if \<not> binary_exists j then [Status MsgBinaryNotFound]
        else retry_loop (iso_path j) (iso2god_path j) (is_legacy_version (iso2god_binary j))
               (attempts j) 0)"

text \<open>Lines 804-820: the \<open>finally\<close> block, apart from the in-flight set.\<close>

definition finally_block :: "job \<Rightarrow> int \<Rightarrow> int \<Rightarrow> event list" where
  "finally_block j current_index total_count =
     [SetTitle ''None'', TaskDone]
     @ (if use_ftp j then
          (if current_index = total_count then
             [Status MsgFtpYes, SendOverFtp (fst (send_over_ftp (ftp_cfg j) (ftp_srv j) (output_folder j)))]
             @ (if snd (send_over_ftp (ftp_cfg j) (ftp_srv j) (output_folder j)) then []
                else [Status MsgFtpError])
           else [])
        else [Status MsgFtpNo])
     @ [Status MsgReady]"

definition process_iso :: "job \<Rightarrow> iso_handler \<Rightarrow> int \<Rightarrow> int \<Rightarrow> event list \<times> iso_handler" where
  "process_iso j h current_index total_count =
     (try_block j @ finally_block j current_index total_count, discard_inflight (iso_path j) h)"

text \<open>
  The consumer loop (\<open>process_queue\<close>, lines 604-619) with processing on and nothing
  admitted or cleared meanwhile: it works through the queue and idles when the queue is
  empty. Each queued path comes with what its processing will meet.
\<close>

fun process_queue :: "job list \<Rightarrow> iso_handler \<Rightarrow> event list \<times> iso_handler" where
  "process_queue [] h = ([], h)"
| "process_queue (j # rest) h =
     (let total_count = int (length (j # rest));
          current_index = total_count - int (length (j # rest)) + 1;
          (es, h') = process_iso j h current_index total_count;
          (es', h'') = process_queue rest h'
      in (es @ es', h''))"

text \<open>The effects the \<open>try\<close> block can have.\<close>

definition supervisor_event :: "event \<Rightarrow> bool" where
  "supervisor_event e =
     (case e of
        SetTitle t \<Rightarrow> False
      | TaskDone \<Rightarrow> False
      | SendOverFtp t \<Rightarrow> False
      | _ \<Rightarrow> True)"

definition is_upload :: "event \<Rightarrow> bool" where
  "is_upload e = (case e of SendOverFtp t \<Rightarrow> True | _ \<Rightarrow> False)"

definition is_popen :: "event \<Rightarrow> bool" where
  "is_popen e = (case e of Popen cmd \<Rightarrow> True | _ \<Rightarrow> False)"

text \<open>
  An attempt that ends with a non-zero exit code: the source file opens, the child
  starts, no pass of the wait loop times it out, and its exit code is not 0.
\<close>

definition nonzero_exit :: "attempt \<Rightarrow> bool" where
  "nonzero_exit a =
     (open_result a = Opened \<and> popen_result a = Spawned
      \<and> \<not> wait_loop (timeout_seconds (process_timeout a)) (conversion_start_time a) (poll_times a)
      \<and> return_code a \<noteq> 0)"

text \<open>A path that is in the in-flight set while no job for it is queued or running.\<close>

definition stuck :: "string \<Rightarrow> app \<Rightarrow> bool" where
  "stuck p a = (p \<in> processing (handler a) \<and> p \<notin> set (iso_queue a) \<and> current_job a \<noteq> Some p)"


section \<open>Sample inputs\<close>

text \<open>
  A conversion that succeeds at once with the default entries, an FTP frame with the
  address \<open>10.0.0.5\<close> typed in and the other entries left at their placeholders, a server
  that accepts every request, and an output folder holding one converted game.
\<close>

definition sample_attempt :: attempt where
  "sample_attempt =
     \<lparr>open_result = Opened, trim_var = False, thread_count = ''4'', output_path = ''out'',
      process_timeout = Some 0, popen_result = Spawned, conversion_start_time = 100,
      poll_times = [101, 102], alive_after_terminate = False, return_code = 0,
      stderr_lines = [], delete_iso_var = True, still_processing = True, remove_ok = True\<rparr>"

definition sample_cfg :: ftp_settings where
  "sample_cfg =
     \<lparr>ftp_ip = ''10.0.0.5'', ftp_port = ''Port (default: 21)'', ftp_port_int = None,
      ftp_user = ''xbox'', ftp_pass = ''secret'', drv_field = ''Drive Folder (default: Hdd1)''\<rparr>"

definition accepting_server :: ftp_server where
  "accepting_server =
     \<lparr>connect_error = False, login_error = False, cwd_error = (\<lambda>d. False),
      stor_error = (\<lambda>f. False)\<rparr>"

definition sample_output :: "local_entry list" where
  "sample_output = [LocalDir ''4D5307E6'' [LocalDir ''00007000'' [LocalFile ''ABCDEF'']]]"

definition sample_job :: "string \<Rightarrow> string \<Rightarrow> (nat \<Rightarrow> attempt) \<Rightarrow> bool \<Rightarrow> job" where
  "sample_job path tool env ftp =
     \<lparr>iso_path = path, game_title = ''game'', iso2god_binary = tool,
      iso2god_path = ''iso2god/'' @ tool, binary_exists = True, attempts = env, use_ftp = ftp,
      ftp_cfg = sample_cfg, ftp_srv = accepting_server, output_folder = sample_output\<rparr>"

definition watch_join :: "string \<Rightarrow> string" where
  "watch_join f = ''in/'' @ f"


section \<open>The thread-count flag and legacy mode\<close>

lemma takeWhile_digits:
  "list_all decimal_char a \<Longrightarrow> r = [] \<or> \<not> decimal_char (hd r) \<Longrightarrow>
   takeWhile decimal_char (a @ r) = a"
  by (induction a) (cases r; auto)+

lemma dropWhile_digits:
  "list_all decimal_char a \<Longrightarrow> r = [] \<or> \<not> decimal_char (hd r) \<Longrightarrow>
   dropWhile decimal_char (a @ r) = r"
  by (induction a) (cases r; auto)+

lemma digits1_run:
  "decimal_run a \<Longrightarrow> r = [] \<or> \<not> decimal_char (hd r) \<Longrightarrow> digits1 (a @ r) = Some (a, r)"
  by (simp add: digits1_def decimal_run_def takeWhile_digits dropWhile_digits)

lemma dot_not_digit: "\<not> decimal_char CHR ''.''"
  by (simp add: decimal_char_def)

lemma match_version_at_triple:
  assumes "decimal_run a" "decimal_run b" "decimal_run c"
    "ext = [] \<or> \<not> decimal_char (hd ext)"
  shows "match_version_at (CHR ''-'' # a @ CHR ''.'' # b @ CHR ''.'' # c @ ext) = Some (a, b, c)"
proof -
  have 1: "digits1 (a @ CHR ''.'' # b @ CHR ''.'' # c @ ext)
      = Some (a, CHR ''.'' # b @ CHR ''.'' # c @ ext)"
    using assms(1) by (intro digits1_run) (simp_all add: dot_not_digit)
  have 2: "digits1 (b @ CHR ''.'' # c @ ext) = Some (b, CHR ''.'' # c @ ext)"
    using assms(2) by (intro digits1_run) (simp_all add: dot_not_digit)
  have 3: "digits1 (c @ ext) = Some (c, ext)"
    using assms(3,4) by (intro digits1_run)
  show ?thesis
    by (simp add: match_version_at_def expect_char_def 1 2 3)
qed

lemma match_version_at_no_dash: "CHR ''-'' \<noteq> x \<Longrightarrow> match_version_at (x # s) = None"
  by (auto simp: match_version_at_def expect_char_def)

lemma re_search_version_identity:
  assumes "CHR ''-'' \<notin> set platform" "decimal_run a" "decimal_run b" "decimal_run c"
    "ext = [] \<or> \<not> decimal_char (hd ext)"
  shows "re_search_version (platform @ CHR ''-'' # a @ CHR ''.'' # b @ CHR ''.'' # c @ ext)
         = Some (a, b, c)"
  using assms(1)
proof (induction platform)
  case Nil
  show ?case using match_version_at_triple[OF assms(2-5)] by simp
next
  case (Cons x xs)
  then show ?case by (simp add: match_version_at_no_dash)
qed

text \<open>
  C2, as amended. The command line of an attempt ends with \<open>-j\<close> and the Threads entry
  exactly when \<open>str.isdigit\<close> holds of that entry (it is not empty and each of its
  characters is a digit character; \<open>0\<close> passes, and so does a superscript two, so the
  entry need not be a positive integer) and the binary is not in legacy mode; a binary in
  legacy mode never gets the flag, whatever the entry. Legacy mode holds exactly when
  the search for \<open>-(\d+\.\d+\.\d+)\<close> in the binary's name finds a triple and that
  triple, as numbers, is at most \<open>(1, 6, 0)\<close> in the lexicographic order; a name with
  no such triple is not legacy. For a binary named
  \<open><platform>-<major>.<minor>.<patch>[<rest>]\<close> the triple found is
  \<open>(major, minor, patch)\<close>.
\<close>

theorem thread_flag_rule:
  "build_cmd tool src dst trim tc (is_legacy_version name)
     = [tool, src, dst] @ (if trim then [''--trim''] else [])
       @ (if isdigit tc \<and> \<not> is_legacy_version name then [''-j'', tc] else [])
   \<and> (is_legacy_version name \<longrightarrow>
        build_cmd tool src dst trim tc (is_legacy_version name)
          = [tool, src, dst] @ (if trim then [''--trim''] else []))
   \<and> is_legacy_version name
       = (\<exists>major minor patch. re_search_version name = Some (major, minor, patch)
            \<and> tuple_le (py_int major, py_int minor, py_int patch) (1, 6, 0))
   \<and> (CHR ''-'' \<notin> set platform \<and> decimal_run a \<and> decimal_run b \<and> decimal_run c
        \<and> (ext = [] \<or> \<not> decimal_char (hd ext)) \<longrightarrow>
        re_search_version (platform @ ''-'' @ a @ ''.'' @ b @ ''.'' @ c @ ext) = Some (a, b, c)
        \<and> is_legacy_version (platform @ ''-'' @ a @ ''.'' @ b @ ''.'' @ c @ ext)
          = tuple_le (py_int a, py_int b, py_int c) (1, 6, 0))"
proof -
  have 1: "build_cmd tool src dst trim tc (is_legacy_version name)
     = [tool, src, dst] @ (if trim then [''--trim''] else [])
       @ (if isdigit tc \<and> \<not> is_legacy_version name then [''-j'', tc] else [])"
    by (simp add: build_cmd_def add_j_def)
  have 2: "build_cmd tool src dst trim tc (is_legacy_version name)
          = [tool, src, dst] @ (if trim then [''--trim''] else [])"
    if "is_legacy_version name"
    using that by (simp add: build_cmd_def add_j_def)
  have 3: "is_legacy_version name
       = (\<exists>major minor patch. re_search_version name = Some (major, minor, patch)
            \<and> tuple_le (py_int major, py_int minor, py_int patch) (1, 6, 0))"
    by (auto simp: is_legacy_version_def split: option.splits)
  have 4: "re_search_version (platform @ ''-'' @ a @ ''.'' @ b @ ''.'' @ c @ ext) = Some (a, b, c)
        \<and> is_legacy_version (platform @ ''-'' @ a @ ''.'' @ b @ ''.'' @ c @ ext)
          = tuple_le (py_int a, py_int b, py_int c) (1, 6, 0)"
    if h: "CHR ''-'' \<notin> set platform \<and> decimal_run a \<and> decimal_run b \<and> decimal_run c
        \<and> (ext = [] \<or> \<not> decimal_char (hd ext))"
  proof -
    from h have "re_search_version
        (platform @ CHR ''-'' # a @ CHR ''.'' # b @ CHR ''.'' # c @ ext) = Some (a, b, c)"
      by (intro re_search_version_identity) simp_all
    then show ?thesis
      by (simp add: is_legacy_version_def)
  qed
  show ?thesis
    using 1 2 3 4 by blast
qed

theorem thread_flag_rule_witness:
  "is_legacy_version ''windows-1.5.2.exe''
   \<and> build_cmd ''iso2god/windows-1.5.2.exe'' ''in/game.iso'' ''out'' True ''4''
        (is_legacy_version ''windows-1.5.2.exe'')
       = [''iso2god/windows-1.5.2.exe'', ''in/game.iso'', ''out'', ''--trim'']
   \<and> \<not> is_legacy_version ''linux-1.6.1''
   \<and> build_cmd ''iso2god/linux-1.6.1'' ''in/game.iso'' ''out'' False ''4''
        (is_legacy_version ''linux-1.6.1'')
       = [''iso2god/linux-1.6.1'', ''in/game.iso'', ''out'', ''-j'', ''4'']
   \<and> build_cmd ''iso2god/linux-1.6.1'' ''in/game.iso'' ''out'' False [CHR 0xB2]
        (is_legacy_version ''linux-1.6.1'')
       = [''iso2god/linux-1.6.1'', ''in/game.iso'', ''out'', ''-j'', [CHR 0xB2]]"
proof -
  have d: "decimal_run ''1''" "decimal_run ''5''" "decimal_run ''2''" "decimal_run ''6''"
    by (simp_all add: decimal_run_def decimal_char_def)
  have i: "isdigit ''4''" "isdigit [CHR 0xB2]"
    by (simp_all add: isdigit_def digit_char_def decimal_char_def)
  have e: "\<not> decimal_char (hd ''.exe'')"
    by (simp add: decimal_char_def)
  have l1: "is_legacy_version ''windows-1.5.2.exe''"
    using thread_flag_rule[of _ _ _ _ _ _ "''windows''" "''1''" "''5''" "''2''" "''.exe''"] d e
    by (simp add: tuple_le_def py_int_def digit_value_def)
  have l2: "\<not> is_legacy_version ''linux-1.6.1''"
    using thread_flag_rule[of _ _ _ _ _ _ "''linux''" "''1''" "''6''" "''1''" "[]"] d
    by (simp add: tuple_le_def py_int_def digit_value_def)
  have c1: "build_cmd ''iso2god/windows-1.5.2.exe'' ''in/game.iso'' ''out'' True ''4''
        (is_legacy_version ''windows-1.5.2.exe'')
       = [''iso2god/windows-1.5.2.exe'', ''in/game.iso'', ''out'', ''--trim'']"
    using conjunct1[OF thread_flag_rule[of "''iso2god/windows-1.5.2.exe''" "''in/game.iso''"
          "''out''" True "''4''" "''windows-1.5.2.exe''"]] l1
    by simp
  have c2: "build_cmd ''iso2god/linux-1.6.1'' ''in/game.iso'' ''out'' False ''4''
        (is_legacy_version ''linux-1.6.1'')
       = [''iso2god/linux-1.6.1'', ''in/game.iso'', ''out'', ''-j'', ''4'']"
    using conjunct1[OF thread_flag_rule[of "''iso2god/linux-1.6.1''" "''in/game.iso''"
          "''out''" False "''4''" "''linux-1.6.1''"]] l2 i
    by simp
  have c3: "build_cmd ''iso2god/linux-1.6.1'' ''in/game.iso'' ''out'' False [CHR 0xB2]
        (is_legacy_version ''linux-1.6.1'')
       = [''iso2god/linux-1.6.1'', ''in/game.iso'', ''out'', ''-j'', [CHR 0xB2]]"
    using conjunct1[OF thread_flag_rule[of "''iso2god/linux-1.6.1''" "''in/game.iso''"
          "''out''" False "[CHR 0xB2]" "''linux-1.6.1''"]] l2 i
    by simp
  show ?thesis
    using l1 c1 l2 c2 c3 by (intro conjI)
qed

text \<open>
  The claim as stated fails at the Threads entry \<open>0\<close>: the flag is appended, and \<open>0\<close>
  is not a positive integer.
\<close>

theorem thread_flag_zero_counterexample:
  "build_cmd ''iso2god/linux-1.7.0'' ''in/game.iso'' ''out'' False ''0''
       (is_legacy_version ''linux-1.7.0'')
     = [''iso2god/linux-1.7.0'', ''in/game.iso'', ''out'', ''-j'', ''0'']
   \<and> \<not> positive_integer ''0''"
  by (simp add: build_cmd_def add_j_def is_legacy_version_def match_version_at_def
      expect_char_def digits1_def decimal_char_def digit_char_def isdigit_def decimal_run_def
      tuple_le_def py_int_def digit_value_def positive_integer_def)


section \<open>Debouncing and admission\<close>

lemma on_created_cases:
  "on_created h q ev now = (h', q') \<Longrightarrow>
     (h' = h \<and> q' = q)
   \<or> (h' = h\<lparr>last_event_time := (last_event_time h)(src_path ev \<mapsto> now)\<rparr> \<and> q' = q
       \<and> src_path ev \<in> processing h)
   \<or> (h' = h\<lparr>last_event_time := (last_event_time h)(src_path ev \<mapsto> now),
               processing := insert (src_path ev) (processing h)\<rparr>
       \<and> q' = q @ [src_path ev] \<and> src_path ev \<notin> processing h)"
  by (auto simp: on_created_def Let_def split: if_splits)

text \<open>
  C6. A sighting is a call of \<open>on_created\<close> for a file whose name ends in \<open>.iso\<close>. If
  a time is recorded for the path and the sighting comes less than \<open>scan_delay\<close> after
  it, nothing changes: no admission, and the recorded time stays. Otherwise (no time
  recorded, or the window has passed) the time of the sighting is recorded, and the path
  is appended to the queue and added to the in-flight set unless it is in the in-flight
  set already. A new handler has a \<open>scan_delay\<close> of 2 seconds.
\<close>

theorem debounce_rule:
  assumes "\<not> is_directory ev" "list_ex (endswith (lower (src_path ev))) (extensions h)"
  shows "(\<forall>t0. last_event_time h (src_path ev) = Some t0 \<and> now - t0 < scan_delay h \<longrightarrow>
            on_created h q ev now = (h, q))
       \<and> (last_event_time h (src_path ev) = None
            \<or> (\<exists>t0. last_event_time h (src_path ev) = Some t0 \<and> \<not> now - t0 < scan_delay h) \<longrightarrow>
            on_created h q ev now =
              (if src_path ev \<in> processing h
               then (h\<lparr>last_event_time := (last_event_time h)(src_path ev \<mapsto> now)\<rparr>, q)
               else (h\<lparr>last_event_time := (last_event_time h)(src_path ev \<mapsto> now),
                       processing := insert (src_path ev) (processing h)\<rparr>,
                     q @ [src_path ev])))
       \<and> scan_delay new_handler = 2"
  using assms
  by (auto simp: on_created_def debounced_def new_handler_def Let_def)

theorem debounce_rule_witness:
  "on_created (new_handler\<lparr>last_event_time := [''in/game.iso'' \<mapsto> 10]\<rparr>) []
      \<lparr>src_path = ''in/game.iso'', is_directory = False\<rparr> 11
     = (new_handler\<lparr>last_event_time := [''in/game.iso'' \<mapsto> 10]\<rparr>, [])
   \<and> on_created (new_handler\<lparr>last_event_time := [''in/game.iso'' \<mapsto> 10]\<rparr>) []
      \<lparr>src_path = ''in/game.iso'', is_directory = False\<rparr> 12
     = (new_handler\<lparr>last_event_time := [''in/game.iso'' \<mapsto> 12],
                     processing := {''in/game.iso''}\<rparr>, [''in/game.iso''])"
proof -
  let ?h = "new_handler\<lparr>last_event_time := [''in/game.iso'' \<mapsto> 10]\<rparr>"
  let ?ev = "\<lparr>src_path = ''in/game.iso'', is_directory = False\<rparr>"
  have a: "\<not> is_directory ?ev" by simp
  have b: "list_ex (endswith (lower (src_path ?ev))) (extensions ?h)"
    by (simp add: new_handler_def endswith_def lower_def lower_char_def)
  have c: "last_event_time ?h (src_path ?ev) = Some 10" by simp
  have d: "processing ?h = {}" "scan_delay ?h = 2" by (simp_all add: new_handler_def)
  from debounce_rule[OF a b, of 11 "[]"] c d
  have 1: "on_created ?h [] ?ev 11 = (?h, [])" by simp
  from debounce_rule[OF a b, of 12 "[]"] c d
  have 2: "on_created ?h [] ?ev 12 = (?h\<lparr>last_event_time := [''in/game.iso'' \<mapsto> 12],
                     processing := {''in/game.iso''}\<rparr>, [''in/game.iso''])"
    by (simp add: new_handler_def)
  from 1 2 show ?thesis by simp
qed


section \<open>One job per path within a watch session\<close>

lemma on_created_queue_ok:
  assumes "on_created h q ev now = (h', q')" "distinct q" "set q \<subseteq> processing h"
  shows "distinct q' \<and> set q' \<subseteq> processing h' \<and> processing h \<subseteq> processing h'
         \<and> set q' - set q \<subseteq> - processing h \<and> set q \<subseteq> set q'"
  using on_created_cases[OF assms(1)] assms(2,3) by auto

lemma scan_entries_queue_ok:
  assumes "scan_entries fp entries (cf, lc, h, q) = (cf', lc', h', q')"
    "distinct q" "set q \<subseteq> processing h"
  shows "distinct q' \<and> set q' \<subseteq> processing h' \<and> processing h \<subseteq> processing h'
         \<and> set q' - set q \<subseteq> - processing h \<and> set q \<subseteq> set q'"
  using assms
proof (induction entries arbitrary: cf lc h q)
  case Nil
  then show ?case by simp
next
  case (Cons e entries)
  obtain fname t1 t2 where e: "e = (fname, t1, t2)" by (cases e)
  show ?case
  proof (cases "endswith (lower fname) ''.iso'' \<and> lc (fp fname) = None")
    case False
    then have "scan_entries fp entries
        (if endswith (lower fname) ''.iso'' then insert (fp fname) cf else cf, lc, h, q)
        = (cf', lc', h', q')"
      using Cons.prems(1) e by (auto simp: Let_def split: if_splits)
    from Cons.IH[OF this Cons.prems(2,3)] show ?thesis .
  next
    case True
    obtain h1 q1 where
      oc: "on_created h q \<lparr>src_path = fp fname, is_directory = False\<rparr> t2 = (h1, q1)"
      by (cases "on_created h q \<lparr>src_path = fp fname, is_directory = False\<rparr> t2")
    from on_created_queue_ok[OF oc Cons.prems(2,3)]
    have 1: "distinct q1" "set q1 \<subseteq> processing h1" "processing h \<subseteq> processing h1"
      "set q1 - set q \<subseteq> - processing h" "set q \<subseteq> set q1" by auto
    have "scan_entries fp entries (insert (fp fname) cf, lc(fp fname \<mapsto> t1), h1, q1)
        = (cf', lc', h', q')"
      using Cons.prems(1) e True oc by (simp add: Let_def)
    from Cons.IH[OF this 1(1,2)] 1 show ?thesis by blast
  qed
qed

lemma poll_queue_ok:
  assumes "distinct (iso_queue a)" "set (iso_queue a) \<subseteq> processing (handler a)"
  shows "distinct (iso_queue (poll fp listing a))
       \<and> set (iso_queue (poll fp listing a)) \<subseteq> processing (handler (poll fp listing a))
       \<and> processing (handler a) \<subseteq> processing (handler (poll fp listing a))
       \<and> set (iso_queue (poll fp listing a)) - set (iso_queue a) \<subseteq> - processing (handler a)
       \<and> set (iso_queue a) \<subseteq> set (iso_queue (poll fp listing a))
       \<and> current_job (poll fp listing a) = current_job a"
proof (cases "watcher a")
  case None
  then show ?thesis using assms by (simp add: poll_def)
next
  case (Some lc)
  show ?thesis
  proof (cases listing)
    case None
    then show ?thesis using Some assms by (simp add: poll_def check_directory_def)
  next
    case (Some entries)
    obtain cf' lc' h' q' where
      sc: "scan_entries fp entries ({}, lc, handler a, iso_queue a) = (cf', lc', h', q')"
      by (cases "scan_entries fp entries ({}, lc, handler a, iso_queue a)") auto
    from scan_entries_queue_ok[OF sc assms] show ?thesis
      using \<open>watcher a = Some lc\<close> Some sc by (simp add: poll_def check_directory_def)
  qed
qed

lemma session_inv_step:
  assumes "session_inv a" "session_action act"
  shows "session_inv (step fp a act)"
proof (cases act)
  case (Toggle x1 x2)
  then show ?thesis using assms by simp
next
  case (Poll listing)
  have d: "distinct (iso_queue a)" "set (iso_queue a) \<subseteq> processing (handler a)"
    using assms(1) by (auto simp: session_inv_def)
  from poll_queue_ok[OF d, of fp listing] assms(1) show ?thesis
    unfolding Poll session_inv_def by (auto split: option.splits)
next
  case ClearQueue
  then show ?thesis using assms
    by (auto simp: session_inv_def clear_queue_def split: option.splits)
next
  case Dequeue
  then show ?thesis using assms
    by (auto simp: session_inv_def dequeue_def split: option.splits list.splits)
next
  case Finish
  then show ?thesis using assms
    by (auto simp: session_inv_def finish_def discard_inflight_def split: option.splits)
qed

text \<open>
  From a fresh start, and as long as the watcher is not stopped and started again, the
  queue holds every path at most once, every queued path is in the in-flight set, and
  the path being processed is in the in-flight set and not in the queue.
\<close>

lemma session_inv_run:
  "session_inv a \<Longrightarrow> list_all session_action acts \<Longrightarrow> session_inv (run fp a acts)"
  unfolding run_def
  by (induction acts arbitrary: a) (auto simp: session_inv_step)

lemma session_inv_start: "session_inv (toggle_watching initial_app True delay)"
  by (simp add: session_inv_def toggle_watching_def initial_app_def set_scan_delay_def
      new_handler_def)

lemma on_created_stuck:
  assumes "on_created h q ev now = (h', q')" "p \<in> processing h" "p \<notin> set q"
  shows "p \<in> processing h' \<and> p \<notin> set q'"
  using on_created_cases[OF assms(1)] assms(2,3) by auto

lemma scan_entries_stuck:
  assumes "scan_entries fp entries (cf, lc, h, q) = (cf', lc', h', q')"
    "p \<in> processing h" "p \<notin> set q"
  shows "p \<in> processing h' \<and> p \<notin> set q'"
  using assms
proof (induction entries arbitrary: cf lc h q)
  case Nil
  then show ?case by simp
next
  case (Cons e entries)
  obtain fname t1 t2 where e: "e = (fname, t1, t2)" by (cases e)
  show ?case
  proof (cases "endswith (lower fname) ''.iso'' \<and> lc (fp fname) = None")
    case False
    then have "scan_entries fp entries
        (if endswith (lower fname) ''.iso'' then insert (fp fname) cf else cf, lc, h, q)
        = (cf', lc', h', q')"
      using Cons.prems(1) e by (auto simp: Let_def split: if_splits)
    from Cons.IH[OF this Cons.prems(2,3)] show ?thesis .
  next
    case True
    obtain h1 q1 where
      oc: "on_created h q \<lparr>src_path = fp fname, is_directory = False\<rparr> t2 = (h1, q1)"
      by (cases "on_created h q \<lparr>src_path = fp fname, is_directory = False\<rparr> t2")
    from on_created_stuck[OF oc Cons.prems(2,3)]
    have 1: "p \<in> processing h1" "p \<notin> set q1" by auto
    have "scan_entries fp entries (insert (fp fname) cf, lc(fp fname \<mapsto> t1), h1, q1)
        = (cf', lc', h', q')"
      using Cons.prems(1) e True oc by (simp add: Let_def)
    from Cons.IH[OF this 1] show ?thesis .
  qed
qed

lemma poll_stuck:
  assumes "stuck p a"
  shows "stuck p (poll fp listing a)"
proof (cases "watcher a")
  case None
  then show ?thesis using assms by (simp add: poll_def)
next
  case (Some lc)
  show ?thesis
  proof (cases listing)
    case None
    then show ?thesis using Some assms by (simp add: poll_def check_directory_def stuck_def)
  next
    case (Some entries)
    obtain cf' lc' h' q' where
      sc: "scan_entries fp entries ({}, lc, handler a, iso_queue a) = (cf', lc', h', q')"
      by (cases "scan_entries fp entries ({}, lc, handler a, iso_queue a)") auto
    from scan_entries_stuck[OF sc, of p] assms show ?thesis
      using \<open>watcher a = Some lc\<close> Some sc by (simp add: poll_def check_directory_def stuck_def)
  qed
qed

lemma stuck_step:
  assumes "stuck p a" "session_action act"
  shows "stuck p (step fp a act)"
proof (cases act)
  case (Poll listing)
  then show ?thesis using assms(1) by (simp add: poll_stuck)
qed (use assms in \<open>auto simp: stuck_def clear_queue_def dequeue_def finish_def
      discard_inflight_def split: option.splits list.splits\<close>)

lemma stuck_run: "stuck p a \<Longrightarrow> list_all session_action acts \<Longrightarrow> stuck p (run fp a acts)"
  unfolding run_def
  by (induction acts arbitrary: a) (auto simp: stuck_step)

text \<open>
  C10. Let a path be queued and in the in-flight set, and not the path being processed.
  If the queue is cleared then, the path stays in the in-flight set through everything
  that follows in the watch session (polls with any listings, so also ones where the file
  is gone and ones where it is back, further clearing, the consumer taking and finishing
  other jobs): it is never queued and never processed again.
\<close>

theorem cleared_path_never_readmitted:
  assumes "p \<in> set (iso_queue a)" "p \<in> processing (handler a)" "current_job a \<noteq> Some p"
    "list_all session_action acts"
  shows "p \<in> processing (handler (run fp (clear_queue a) acts))
       \<and> p \<notin> set (iso_queue (run fp (clear_queue a) acts))
       \<and> current_job (run fp (clear_queue a) acts) \<noteq> Some p"
proof -
  have "stuck p (clear_queue a)"
    using assms(2,3) by (simp add: stuck_def clear_queue_def)
  from stuck_run[OF this assms(4)] show ?thesis by (simp add: stuck_def)
qed

theorem cleared_path_never_readmitted_witness:
  "''in/game.iso'' \<in> set (iso_queue (run watch_join initial_app
       [Toggle True (Some 2), Poll (Some [(''game.iso'', 0, 0)])]))
   \<and> ''in/game.iso'' \<in> processing (handler (run watch_join (clear_queue (run watch_join initial_app
       [Toggle True (Some 2), Poll (Some [(''game.iso'', 0, 0)])]))
       [Poll (Some []), Poll (Some [(''game.iso'', 60, 60)]), Dequeue, Finish]))
   \<and> iso_queue (run watch_join (clear_queue (run watch_join initial_app
       [Toggle True (Some 2), Poll (Some [(''game.iso'', 0, 0)])]))
       [Poll (Some []), Poll (Some [(''game.iso'', 60, 60)]), Dequeue, Finish]) = []"
proof -
  let ?a = "run watch_join initial_app [Toggle True (Some 2), Poll (Some [(''game.iso'', 0, 0)])]"
  let ?acts = "[Poll (Some []), Poll (Some [(''game.iso'', 60, 60)]), Dequeue, Finish]"
  have q: "iso_queue ?a = [''in/game.iso'']"
    by (simp add: run_def initial_app_def toggle_watching_def poll_def check_directory_def
        on_created_def debounced_def set_scan_delay_def new_handler_def watch_join_def
        endswith_def lower_def lower_char_def Let_def)
  have pr: "processing (handler ?a) = {''in/game.iso''}"
    by (simp add: run_def initial_app_def toggle_watching_def poll_def check_directory_def
        on_created_def debounced_def set_scan_delay_def new_handler_def watch_join_def
        endswith_def lower_def lower_char_def Let_def)
  have cj: "current_job ?a = None"
    by (simp add: run_def initial_app_def toggle_watching_def poll_def check_directory_def
        on_created_def debounced_def set_scan_delay_def new_handler_def watch_join_def
        endswith_def lower_def lower_char_def Let_def)
  have acts: "list_all session_action ?acts" by simp
  have e: "iso_queue (run watch_join (clear_queue ?a) ?acts) = []"
    by (simp add: run_def initial_app_def toggle_watching_def poll_def check_directory_def
        on_created_def debounced_def set_scan_delay_def new_handler_def watch_join_def
        endswith_def lower_def lower_char_def Let_def clear_queue_def dequeue_def finish_def)
  from cleared_path_never_readmitted[of "''in/game.iso''" ?a ?acts watch_join] q pr cj acts e
  show ?thesis by simp
qed

text \<open>
  C1 fails across a stop and a restart of the watcher. Two files are sighted and
  queued, the consumer takes the first; the watcher is stopped and started again, which
  builds a new handler with an empty in-flight set while the queue and the running job
  stay; the next poll then admits both files again. The second file is in the queue
  twice while it is in the in-flight set, and the first is queued while it is being
  processed.
\<close>

theorem restart_duplicates_jobs:
  "iso_queue (run watch_join initial_app
      [Toggle True (Some 2), Poll (Some [(''a.iso'', 0, 0), (''b.iso'', 0, 0)]), Dequeue,
       Toggle True (Some 2), Toggle True (Some 2),
       Poll (Some [(''a.iso'', 60, 60), (''b.iso'', 60, 60)])])
     = [''in/b.iso'', ''in/a.iso'', ''in/b.iso'']
   \<and> current_job (run watch_join initial_app
      [Toggle True (Some 2), Poll (Some [(''a.iso'', 0, 0), (''b.iso'', 0, 0)]), Dequeue,
       Toggle True (Some 2), Toggle True (Some 2),
       Poll (Some [(''a.iso'', 60, 60), (''b.iso'', 60, 60)])])
     = Some ''in/a.iso''
   \<and> processing (handler (run watch_join initial_app
      [Toggle True (Some 2), Poll (Some [(''a.iso'', 0, 0), (''b.iso'', 0, 0)]), Dequeue,
       Toggle True (Some 2), Toggle True (Some 2),
       Poll (Some [(''a.iso'', 60, 60), (''b.iso'', 60, 60)])]))
     = {''in/a.iso'', ''in/b.iso''}"
  by (simp add: run_def initial_app_def toggle_watching_def poll_def check_directory_def
      on_created_def debounced_def dequeue_def set_scan_delay_def new_handler_def
      watch_join_def endswith_def lower_def lower_char_def Let_def insert_commute)


section \<open>The retry loop\<close>

lemma retry_loop_unfold:
  "retry_loop p t l env k =
     (if k < max_retries then
        (case run_attempt p t l k (env k) of
           Return es \<Rightarrow> es
         | Retry es \<Rightarrow> es @ retry_loop p t l env (k + 1))
      else [])"
  by (subst retry_loop.simps) (rule refl)

declare retry_loop.simps [simp del]

text \<open>
  The guard of the legacy retry (line 759) never holds: the flag is sent only when
  legacy mode is off.
\<close>

lemma legacy_retry_unreachable:
  "\<not> (legacy_mode \<and> read_stderr legacy_mode lines \<and> add_j tc legacy_mode)"
  by (simp add: add_j_def)

lemma wait_loop_timeout:
  "s \<noteq> 0 \<Longrightarrow> \<exists>now\<in>set polls. now - start > s \<Longrightarrow> wait_loop (Some s) start polls"
  by (induction polls) auto

lemma run_attempt_nonzero:
  assumes "nonzero_exit a"
  shows "run_attempt p t l k a =
     (if k < 2
      then Retry (start_events p t l a @ [Status (MsgErrorRetry (return_code a) (k + 1)), Sleep 120])
      else Return (start_events p t l a @ [Status (MsgErrorSkip (return_code a))]))"
  using assms
  by (simp add: nonzero_exit_def run_attempt_def supervise_def after_exit_def conclude_def add_j_def emit_def
      max_retries_def retry_delay_def)

lemma sample_traces:
  "start_events p t l (sample_attempt\<lparr>return_code := rc, stderr_lines := ls\<rparr>)
     = [Status MsgStarting, Popen (build_cmd t p ''out'' False ''4'' l)]"
  "nonzero_exit (sample_attempt\<lparr>return_code := 2, stderr_lines := ls\<rparr>)"
  "isdigit ''4''"
  by (simp_all add: start_events_def sample_attempt_def nonzero_exit_def timeout_seconds_def
      isdigit_def digit_char_def decimal_char_def)

text \<open>
  C4. When an attempt ends with a non-zero exit code, the loop reports it, sleeps 120
  seconds and goes on with the next attempt, as long as fewer than two attempts came
  before; at the third attempt it reports the file as skipped and ends. A job whose three
  attempts all end with a non-zero exit code starts the tool exactly three times, with
  one sleep of 120 seconds between consecutive starts, and nothing after the skip report.
\<close>

theorem nonzero_exit_retries:
  "(k < 2 \<and> nonzero_exit (env k) \<longrightarrow>
      retry_loop p t l env k =
        start_events p t l (env k)
        @ [Status (MsgErrorRetry (return_code (env k)) (k + 1)), Sleep 120]
        @ retry_loop p t l env (k + 1))
   \<and> (nonzero_exit (env 2) \<longrightarrow>
      retry_loop p t l env 2 =
        start_events p t l (env 2) @ [Status (MsgErrorSkip (return_code (env 2)))])
   \<and> (nonzero_exit (env 0) \<and> nonzero_exit (env 1) \<and> nonzero_exit (env 2) \<longrightarrow>
      retry_loop p t l env 0 =
        start_events p t l (env 0) @ [Status (MsgErrorRetry (return_code (env 0)) 1), Sleep 120]
        @ start_events p t l (env 1) @ [Status (MsgErrorRetry (return_code (env 1)) 2), Sleep 120]
        @ start_events p t l (env 2) @ [Status (MsgErrorSkip (return_code (env 2)))]
      \<and> length (filter is_popen (retry_loop p t l env 0)) = 3)"
proof -
  have step: "retry_loop p t l env k =
        start_events p t l (env k)
        @ [Status (MsgErrorRetry (return_code (env k)) (k + 1)), Sleep 120]
        @ retry_loop p t l env (k + 1)" if "k < 2" "nonzero_exit (env k)" for k
    using that by (subst retry_loop_unfold) (simp add: run_attempt_nonzero max_retries_def)
  have last: "retry_loop p t l env 2 =
        start_events p t l (env 2) @ [Status (MsgErrorSkip (return_code (env 2)))]"
    if "nonzero_exit (env 2)"
    using that by (subst retry_loop_unfold) (simp add: run_attempt_nonzero max_retries_def)
  have popen: "length (filter is_popen (start_events p t l a)) = 1" for a
    by (simp add: start_events_def is_popen_def)
  have all: "retry_loop p t l env 0 =
        start_events p t l (env 0) @ [Status (MsgErrorRetry (return_code (env 0)) 1), Sleep 120]
        @ start_events p t l (env 1) @ [Status (MsgErrorRetry (return_code (env 1)) 2), Sleep 120]
        @ start_events p t l (env 2) @ [Status (MsgErrorSkip (return_code (env 2)))]"
    if "nonzero_exit (env 0)" "nonzero_exit (env 1)" "nonzero_exit (env 2)"
    using step[of 0] step[of 1] last that by (simp add: numeral_2_eq_2)
  show ?thesis
    using step[of k] last all by (auto simp: popen is_popen_def)
qed

theorem nonzero_exit_retries_witness:
  "retry_loop ''in/game.iso'' ''iso2god/linux-1.7.0'' False
       (\<lambda>n. sample_attempt\<lparr>return_code := 2, stderr_lines := []\<rparr>) 0
     = [Status MsgStarting,
        Popen [''iso2god/linux-1.7.0'', ''in/game.iso'', ''out'', ''-j'', ''4''],
        Status (MsgErrorRetry 2 1), Sleep 120,
        Status MsgStarting,
        Popen [''iso2god/linux-1.7.0'', ''in/game.iso'', ''out'', ''-j'', ''4''],
        Status (MsgErrorRetry 2 2), Sleep 120,
        Status MsgStarting,
        Popen [''iso2god/linux-1.7.0'', ''in/game.iso'', ''out'', ''-j'', ''4''],
        Status (MsgErrorSkip 2)]
   \<and> length (filter is_popen (retry_loop ''in/game.iso'' ''iso2god/linux-1.7.0'' False
       (\<lambda>n. sample_attempt\<lparr>return_code := 2, stderr_lines := []\<rparr>) 0)) = 3"
proof -
  let ?a = "sample_attempt\<lparr>return_code := 2, stderr_lines := []\<rparr>"
  have ne: "nonzero_exit ?a"
    by (rule sample_traces)
  have "retry_loop ''in/game.iso'' ''iso2god/linux-1.7.0'' False (\<lambda>n. ?a) 0 =
        start_events ''in/game.iso'' ''iso2god/linux-1.7.0'' False ?a
        @ [Status (MsgErrorRetry (return_code ?a) 1), Sleep 120]
        @ start_events ''in/game.iso'' ''iso2god/linux-1.7.0'' False ?a
        @ [Status (MsgErrorRetry (return_code ?a) 2), Sleep 120]
        @ start_events ''in/game.iso'' ''iso2god/linux-1.7.0'' False ?a
        @ [Status (MsgErrorSkip (return_code ?a))]
      \<and> length (filter is_popen
           (retry_loop ''in/game.iso'' ''iso2god/linux-1.7.0'' False (\<lambda>n. ?a) 0)) = 3"
    using conjunct2[OF conjunct2[OF nonzero_exit_retries[of 0 "\<lambda>n. ?a"
          "''in/game.iso''" "''iso2god/linux-1.7.0''" False]]] ne
    by blast
  then show ?thesis
    by (simp add: sample_traces build_cmd_def add_j_def is_popen_def)
qed

lemma retry_never_removes:
  "run_attempt p t l i a = Retry es \<Longrightarrow> Remove x \<notin> set es"
  by (auto simp: run_attempt_def supervise_def after_exit_def conclude_def permission_error_def emit_def
      start_events_def split: if_splits open_result.splits popen_result.splits)

text \<open>
  C5. Let the timeout entry be a number of minutes greater than 0, and let a pass of the
  wait loop find the child alive more than that long after the attempt started. Then the
  rest of the job is: \<open>terminate\<close>, a sleep of one second, \<open>kill\<close> if the child is still
  alive, and the report that the file timed out. The tool is not started again, and
  \<open>os.remove\<close> is not called, whatever the delete option says. (An attempt that was
  retried before did not call it either.)
\<close>

theorem timeout_abandons:
  assumes "k < 3" "open_result (env k) = Opened" "popen_result (env k) = Spawned"
    "process_timeout (env k) = Some m" "0 < m"
    "\<exists>now\<in>set (poll_times (env k)). now - conversion_start_time (env k) > m * 60"
  shows "retry_loop p t l env k =
           start_events p t l (env k) @ [Terminate, Sleep 1]
           @ (if alive_after_terminate (env k) then [Kill] else []) @ [Status MsgTimedOut]
       \<and> Remove x \<notin> set (retry_loop p t l env k)
       \<and> length (filter is_popen (retry_loop p t l env k)) = 1
       \<and> (\<forall>i a es. run_attempt p t l i a = Retry es \<longrightarrow> Remove x \<notin> set es)"
proof -
  have ts: "timeout_seconds (process_timeout (env k)) = Some (m * 60)"
    using assms(4,5) by (simp add: timeout_seconds_def)
  have w: "wait_loop (Some (m * 60)) (conversion_start_time (env k)) (poll_times (env k))"
    using assms(5,6) by (intro wait_loop_timeout) auto
  have ra: "run_attempt p t l k (env k) =
      Return (start_events p t l (env k) @ [Terminate, Sleep 1]
           @ (if alive_after_terminate (env k) then [Kill] else []) @ [Status MsgTimedOut])"
    using assms(2,3) ts w by (simp add: run_attempt_def supervise_def emit_def)
  have eq: "retry_loop p t l env k =
           start_events p t l (env k) @ [Terminate, Sleep 1]
           @ (if alive_after_terminate (env k) then [Kill] else []) @ [Status MsgTimedOut]"
    using assms(1) by (subst retry_loop_unfold) (simp add: ra max_retries_def)
  have nr: "Remove x \<notin> set (retry_loop p t l env k)"
    unfolding eq by (simp add: start_events_def)
  have one: "length (filter is_popen (retry_loop p t l env k)) = 1"
    unfolding eq by (simp add: start_events_def is_popen_def)
  show ?thesis
    using eq nr one retry_never_removes by blast
qed

theorem timeout_abandons_witness:
  "retry_loop ''in/game.iso'' ''iso2god/linux-1.7.0'' False
       (\<lambda>n. sample_attempt\<lparr>process_timeout := Some 1, poll_times := [130, 161],
                              alive_after_terminate := True\<rparr>) 0
     = [Status MsgStarting,
        Popen [''iso2god/linux-1.7.0'', ''in/game.iso'', ''out'', ''-j'', ''4''],
        Terminate, Sleep 1, Kill, Status MsgTimedOut]
   \<and> delete_iso_var sample_attempt
   \<and> Remove ''in/game.iso'' \<notin> set (retry_loop ''in/game.iso'' ''iso2god/linux-1.7.0'' False
       (\<lambda>n. sample_attempt\<lparr>process_timeout := Some 1, poll_times := [130, 161],
                              alive_after_terminate := True\<rparr>) 0)"
proof -
  let ?a = "sample_attempt\<lparr>process_timeout := Some 1, poll_times := [130, 161],
                            alive_after_terminate := True\<rparr>"
  have h: "(0::nat) < 3" "open_result ?a = Opened" "popen_result ?a = Spawned"
    "process_timeout ?a = Some 1" "(0::real) < 1"
    "\<exists>now\<in>set (poll_times ?a). now - conversion_start_time ?a > 1 * 60"
    by (simp_all add: sample_attempt_def)
  have se: "start_events ''in/game.iso'' ''iso2god/linux-1.7.0'' False ?a
      = [Status MsgStarting,
         Popen [''iso2god/linux-1.7.0'', ''in/game.iso'', ''out'', ''-j'', ''4'']]"
    by (simp add: start_events_def sample_attempt_def build_cmd_def add_j_def isdigit_def
        digit_char_def decimal_char_def)
  have d: "delete_iso_var sample_attempt"
    by (simp add: sample_attempt_def)
  from timeout_abandons[of 0 "\<lambda>n. ?a" 1 "''in/game.iso''" "''iso2god/linux-1.7.0''" False
      "''in/game.iso''", OF h]
  have "retry_loop ''in/game.iso'' ''iso2god/linux-1.7.0'' False (\<lambda>n. ?a) 0
      = start_events ''in/game.iso'' ''iso2god/linux-1.7.0'' False ?a
        @ [Terminate, Sleep 1, Kill, Status MsgTimedOut]
    \<and> Remove ''in/game.iso'' \<notin> set (retry_loop ''in/game.iso'' ''iso2god/linux-1.7.0'' False
        (\<lambda>n. ?a) 0)"
    by (simp add: se)
  then show ?thesis using d by (simp add: se)
qed




section \<open>Cleanup and upload\<close>

lemma run_attempt_events:
  "run_attempt p t l k a = Return es \<or> run_attempt p t l k a = Retry es \<Longrightarrow>
   list_all supervisor_event es"
  by (auto simp: run_attempt_def supervise_def after_exit_def conclude_def permission_error_def emit_def
      start_events_def supervisor_event_def
      split: if_splits open_result.splits popen_result.splits)

lemma retry_loop_events: "list_all supervisor_event (retry_loop p t l env k)"
proof (induction p t l env k rule: retry_loop.induct)
  case (1 p t l env k)
  show ?case
  proof (cases "k < max_retries")
    case False
    then show ?thesis by (subst retry_loop_unfold) simp
  next
    case True
    show ?thesis
    proof (cases "run_attempt p t l k (env k)")
      case (Return es)
      then show ?thesis using True run_attempt_events[of p t l k "env k" es]
        by (subst retry_loop_unfold) simp
    next
      case (Retry es)
      then show ?thesis
        using True run_attempt_events[of p t l k "env k" es] "1.IH"[OF True Retry]
        by (subst retry_loop_unfold) simp
    qed
  qed
qed

lemma filter_none: "list_all P xs \<Longrightarrow> (\<And>x. P x \<Longrightarrow> \<not> Q x) \<Longrightarrow> filter Q xs = []"
  by (induction xs) auto

lemma list_ex_filter: "list_ex P xs \<longleftrightarrow> filter P xs \<noteq> []"
  by (induction xs) auto

lemma try_block_no_upload: "filter is_upload (try_block j) = []"
  using filter_none[OF retry_loop_events, of is_upload]
  by (auto simp: try_block_def is_upload_def supervisor_event_def split: event.splits)

lemma try_block_no_task_done: "filter (\<lambda>e. e = TaskDone) (try_block j) = []"
  using filter_none[OF retry_loop_events, of "\<lambda>e. e = TaskDone"]
  by (auto simp: try_block_def supervisor_event_def split: event.splits)

lemma finally_block_upload:
  "filter is_upload (finally_block j idx tot) =
     (if use_ftp j \<and> idx = tot
      then [SendOverFtp (fst (send_over_ftp (ftp_cfg j) (ftp_srv j) (output_folder j)))]
      else [])"
  by (simp add: finally_block_def is_upload_def)

lemma finally_block_task_done:
  "filter (\<lambda>e. e = TaskDone) (finally_block j idx tot) = [TaskDone]"
  by (simp add: finally_block_def)

lemma process_queue_Cons:
  "process_queue (j # rest) h =
     (try_block j @ finally_block j 1 (int (length rest) + 1)
        @ fst (process_queue rest (discard_inflight (iso_path j) h)),
      snd (process_queue rest (discard_inflight (iso_path j) h)))"
  by (simp add: process_iso_def Let_def add.commute split: prod.splits)

lemma process_queue_uploads:
  "length (filter is_upload (fst (process_queue js h)))
     = (if js \<noteq> [] \<and> use_ftp (last js) then 1 else 0)"
proof (induction js arbitrary: h)
  case Nil
  then show ?case by simp
next
  case (Cons j rest)
  have ih: "length (filter is_upload (fst (process_queue rest (discard_inflight (iso_path j) h))))
      = (if rest \<noteq> [] \<and> use_ftp (last rest) then 1 else 0)"
    by (rule Cons.IH)
  show ?case
  proof (cases "rest = []")
    case True
    then show ?thesis
      unfolding process_queue_Cons
      by (simp add: try_block_no_upload finally_block_upload)
  next
    case False
    then have "int (length rest) + 1 \<noteq> 1" by simp
    then show ?thesis
      unfolding process_queue_Cons using False ih
      by (simp add: try_block_no_upload finally_block_upload del: process_queue.simps)
  qed
qed

lemma discard_inflight_processing: "processing (discard_inflight p h) = processing h - {p}"
  by (auto simp: discard_inflight_def)

lemma process_queue_acks:
  "length (filter (\<lambda>e. e = TaskDone) (fst (process_queue js h))) = length js
   \<and> processing (snd (process_queue js h)) = processing h - set (map iso_path js)"
proof (induction js arbitrary: h)
  case Nil
  then show ?case by simp
next
  case (Cons j rest)
  show ?case
    unfolding process_queue_Cons
    using Cons.IH[of "discard_inflight (iso_path j) h"]
    by (auto simp: try_block_no_task_done finally_block_task_done discard_inflight_processing
        simp del: process_queue.simps)
qed

lemma sample_try_blocks:
  "try_block (sample_job ''in/game.iso'' ''linux-1.7.0'' (\<lambda>n. sample_attempt) ftp)
     = [SetTitle ''game'', Status MsgFound, Status MsgStarting,
        Popen [''iso2god/linux-1.7.0'', ''in/game.iso'', ''out'', ''-j'', ''4''],
        Status MsgConverted, Remove ''in/game.iso'', Status MsgDeleted]"
  "try_block (sample_job ''in/game.iso'' ''linux-1.7.0''
       (\<lambda>n. sample_attempt\<lparr>open_result := OpenFailed\<rparr>) ftp)
     = [SetTitle ''game'', Status MsgFound, Status MsgUnexpected]"
  "try_block (sample_job ''in/game.iso'' ''linux-1.7.0''
       (\<lambda>n. sample_attempt\<lparr>open_result := OpenPermissionError\<rparr>) ftp)
     = [SetTitle ''game'', Status MsgFound,
        Status (MsgLockedRetry 1), Sleep 120, Status (MsgLockedRetry 2), Sleep 120,
        Status MsgLockedSkip]"
  "try_block (sample_job ''in/game.iso'' [] (\<lambda>n. sample_attempt) ftp)
     = [SetTitle ''game'', Status MsgFound, Status MsgNoBinary]"
  by (simp_all add: try_block_def sample_job_def is_legacy_version_def match_version_at_def
      expect_char_def digits1_def decimal_char_def digit_char_def isdigit_def tuple_le_def
      py_int_def digit_value_def retry_loop_unfold[of _ _ _ _ 0] retry_loop_unfold[of _ _ _ _ "Suc 0"]
      retry_loop_unfold[of _ _ _ _ 2] retry_loop_unfold[of _ _ _ _ "Suc (Suc 0)"]
      max_retries_def retry_delay_def run_attempt_def supervise_def
      after_exit_def conclude_def emit_def start_events_def sample_attempt_def timeout_seconds_def
      build_cmd_def add_j_def)

text \<open>
  C9. Whatever a job meets (a conversion that succeeds, attempts that are used up, a
  timeout, an exception of the file check or of the start of the child, a missing
  binary), the effects of \<open>process_iso\<close> are those of the \<open>try\<close> block followed by the
  cleanup: the title is set back to \<open>None\<close>, the queue item is acknowledged, exactly once,
  and the path is no longer in the in-flight set. The consumer goes through a queue of
  any jobs to its end: it acknowledges every item and leaves none of their paths in the
  in-flight set.
\<close>

theorem cleanup_always_runs:
  "(\<exists>upload. fst (process_iso j h idx tot)
       = try_block j @ [SetTitle ''None'', TaskDone] @ upload @ [Status MsgReady])
   \<and> filter (\<lambda>e. e = TaskDone) (fst (process_iso j h idx tot)) = [TaskDone]
   \<and> processing (snd (process_iso j h idx tot)) = processing h - {iso_path j}
   \<and> length (filter (\<lambda>e. e = TaskDone) (fst (process_queue js h))) = length js
   \<and> processing (snd (process_queue js h)) = processing h - set (map iso_path js)"
proof -
  have a: "\<exists>upload. fst (process_iso j h idx tot)
       = try_block j @ [SetTitle ''None'', TaskDone] @ upload @ [Status MsgReady]"
    by (simp add: process_iso_def finally_block_def)
  have b: "filter (\<lambda>e. e = TaskDone) (fst (process_iso j h idx tot)) = [TaskDone]"
    by (simp add: process_iso_def try_block_no_task_done finally_block_task_done)
  have c: "processing (snd (process_iso j h idx tot)) = processing h - {iso_path j}"
    by (simp add: process_iso_def discard_inflight_processing)
  show ?thesis
    using a b c process_queue_acks[of js h] by blast
qed

theorem cleanup_always_runs_witness:
  "fst (process_iso (sample_job ''in/game.iso'' ''linux-1.7.0''
          (\<lambda>n. sample_attempt\<lparr>open_result := OpenFailed\<rparr>) False)
        (new_handler\<lparr>processing := {''in/game.iso''}\<rparr>) 1 1)
     = [SetTitle ''game'', Status MsgFound, Status MsgUnexpected,
        SetTitle ''None'', TaskDone, Status MsgFtpNo, Status MsgReady]
   \<and> processing (snd (process_iso (sample_job ''in/game.iso'' ''linux-1.7.0''
          (\<lambda>n. sample_attempt\<lparr>open_result := OpenFailed\<rparr>) False)
        (new_handler\<lparr>processing := {''in/game.iso''}\<rparr>) 1 1)) = {}"
proof -
  let ?j = "sample_job ''in/game.iso'' ''linux-1.7.0''
          (\<lambda>n. sample_attempt\<lparr>open_result := OpenFailed\<rparr>) False"
  let ?h = "new_handler\<lparr>processing := {''in/game.iso''}\<rparr>"
  have p: "iso_path ?j = ''in/game.iso''"
    by (simp add: sample_job_def)
  have e: "fst (process_iso ?j ?h 1 1)
     = [SetTitle ''game'', Status MsgFound, Status MsgUnexpected,
        SetTitle ''None'', TaskDone, Status MsgFtpNo, Status MsgReady]"
    by (simp add: process_iso_def sample_try_blocks finally_block_def)
       (simp add: sample_job_def)
  from cleanup_always_runs[of ?j ?h 1 1 "[]"] p e show ?thesis by simp
qed

text \<open>
  C7. A job's \<open>finally\<close> block starts the upload exactly when the FTP option is on and
  the job's index equals the total taken when it was dequeued; the upload comes after
  the acknowledgement of the queue item. When the consumer works through a queue with
  nothing admitted meanwhile, the index equals the total for the last job only: with two
  jobs queued, the first job's effects hold no upload, and with the FTP option on the
  whole run holds exactly one, in the \<open>finally\<close> block of the second job. For a queue
  of any length the run holds one upload if the queue is not empty and the option is on
  for its last job, and none otherwise.
\<close>

theorem upload_after_last_job:
  "(list_ex is_upload (fst (process_iso j h idx tot)) \<longleftrightarrow> use_ftp j \<and> idx = tot)
   \<and> fst (process_queue [j1, j2] h)
       = (try_block j1 @ finally_block j1 1 2) @ (try_block j2 @ finally_block j2 1 1)
   \<and> \<not> list_ex is_upload (try_block j1 @ finally_block j1 1 2)
   \<and> (use_ftp j2 \<longrightarrow>
        filter is_upload (fst (process_queue [j1, j2] h))
          = [SendOverFtp (fst (send_over_ftp (ftp_cfg j2) (ftp_srv j2) (output_folder j2)))]
        \<and> take 4 (finally_block j2 1 1)
          = [SetTitle ''None'', TaskDone, Status MsgFtpYes,
             SendOverFtp (fst (send_over_ftp (ftp_cfg j2) (ftp_srv j2) (output_folder j2)))])
   \<and> length (filter is_upload (fst (process_queue js h)))
       = (if js \<noteq> [] \<and> use_ftp (last js) then 1 else 0)"
proof -
  have a: "list_ex is_upload (fst (process_iso j h idx tot)) \<longleftrightarrow> use_ftp j \<and> idx = tot"
    by (simp add: list_ex_filter process_iso_def try_block_no_upload finally_block_upload)
  have b: "fst (process_queue [j1, j2] h)
       = (try_block j1 @ finally_block j1 1 2) @ (try_block j2 @ finally_block j2 1 1)"
    by (simp add: process_iso_def Let_def)
  have c: "\<not> list_ex is_upload (try_block j1 @ finally_block j1 1 2)"
    by (simp add: list_ex_filter try_block_no_upload finally_block_upload)
  have d: "filter is_upload (fst (process_queue [j1, j2] h))
          = [SendOverFtp (fst (send_over_ftp (ftp_cfg j2) (ftp_srv j2) (output_folder j2)))]"
    if "use_ftp j2"
    unfolding b using that by (simp add: try_block_no_upload finally_block_upload)
  have e: "take 4 (finally_block j2 1 1)
          = [SetTitle ''None'', TaskDone, Status MsgFtpYes,
             SendOverFtp (fst (send_over_ftp (ftp_cfg j2) (ftp_srv j2) (output_folder j2)))]"
    if "use_ftp j2"
    using that by (simp add: finally_block_def)
  show ?thesis
    using a b c d e process_queue_uploads[of js h] by blast
qed

theorem upload_after_last_job_witness:
  "use_ftp (sample_job ''in/b.iso'' ''linux-1.7.0'' (\<lambda>n. sample_attempt) True)
   \<and> filter is_upload (fst (process_queue
        [sample_job ''in/a.iso'' ''linux-1.7.0'' (\<lambda>n. sample_attempt) True,
         sample_job ''in/b.iso'' ''linux-1.7.0'' (\<lambda>n. sample_attempt) True] new_handler))
     = [SendOverFtp (fst (send_over_ftp sample_cfg accepting_server sample_output))]"
proof -
  let ?j1 = "sample_job ''in/a.iso'' ''linux-1.7.0'' (\<lambda>n. sample_attempt) True"
  let ?j2 = "sample_job ''in/b.iso'' ''linux-1.7.0'' (\<lambda>n. sample_attempt) True"
  have u: "use_ftp ?j2" "ftp_cfg ?j2 = sample_cfg" "ftp_srv ?j2 = accepting_server"
    "output_folder ?j2 = sample_output"
    by (simp_all add: sample_job_def)
  have "use_ftp ?j2 \<longrightarrow>
        filter is_upload (fst (process_queue [?j1, ?j2] new_handler))
          = [SendOverFtp (fst (send_over_ftp (ftp_cfg ?j2) (ftp_srv ?j2) (output_folder ?j2)))]
        \<and> take 4 (finally_block ?j2 1 1)
          = [SetTitle ''None'', TaskDone, Status MsgFtpYes,
             SendOverFtp (fst (send_over_ftp (ftp_cfg ?j2) (ftp_srv ?j2) (output_folder ?j2)))]"
    using upload_after_last_job[of ?j1 new_handler 1 1 ?j1 ?j2 "[]"] by blast
  with u(1) have "filter is_upload (fst (process_queue [?j1, ?j2] new_handler))
          = [SendOverFtp (fst (send_over_ftp (ftp_cfg ?j2) (ftp_srv ?j2) (output_folder ?j2)))]"
    by blast
  then have "filter is_upload (fst (process_queue [?j1, ?j2] new_handler))
          = [SendOverFtp (fst (send_over_ftp sample_cfg accepting_server sample_output))]"
    by (simp only: u)
  with u(1) show ?thesis by blast
qed

text \<open>
  C8 fails in the code. With the address \<open>10.0.0.5\<close> in the IP entry, the session
  connects to \<open>192.168.1.28\<close>: \<open>send_over_ftp\<close> passes that literal to \<open>connect\<close> and
  never reads the entry. The rest is as claimed: port 21 for the placeholder, the login
  with the user and password entries, the remote root
  \<open>Hdd1/Content/0000000000000000\<close>, a \<open>mkd\<close> and a \<open>cwd\<close> for every folder, and
  \<open>cwd("..")\<close> after every subfolder.
\<close>

theorem connect_ignores_ip_entry:
  "ftp_ip sample_cfg = ''10.0.0.5''
   \<and> send_over_ftp sample_cfg accepting_server sample_output =
      ([Connect ''192.168.1.28'' 21, Login ''xbox'' ''secret'',
        Mkd ''Hdd1/Content/0000000000000000'', Cwd ''Hdd1/Content/0000000000000000'',
        Mkd ''4D5307E6'', Cwd ''4D5307E6'',
        Mkd ''00007000'', Cwd ''00007000'', Stor ''ABCDEF'', TransferComplete, Cwd ''..'',
        TransferComplete, Cwd ''..'', TransferComplete], True)
   \<and> (\<forall>cfg srv folder ip.
        send_over_ftp (cfg\<lparr>ftp_ip := ip\<rparr>) srv folder = send_over_ftp cfg srv folder)"
proof -
  have a: "ftp_ip sample_cfg = ''10.0.0.5''"
    by (simp add: sample_cfg_def)
  have b: "send_over_ftp sample_cfg accepting_server sample_output =
      ([Connect ''192.168.1.28'' 21, Login ''xbox'' ''secret'',
        Mkd ''Hdd1/Content/0000000000000000'', Cwd ''Hdd1/Content/0000000000000000'',
        Mkd ''4D5307E6'', Cwd ''4D5307E6'',
        Mkd ''00007000'', Cwd ''00007000'', Stor ''ABCDEF'', TransferComplete, Cwd ''..'',
        TransferComplete, Cwd ''..'', TransferComplete], True)"
    by (simp add: send_over_ftp_def sample_cfg_def accepting_server_def sample_output_def
        and_then_def)
  have c: "send_over_ftp (cfg\<lparr>ftp_ip := ip\<rparr>) srv folder = send_over_ftp cfg srv folder"
    for cfg srv folder ip
    by (simp add: send_over_ftp_def split: option.splits)
  show ?thesis
    using a b c by (intro conjI allI)
qed

end
